theory Spec2Isabelle
  imports Main "HOL-Library.Sublist" "HOL-Library.AList"
begin

section \<open>Conventions of the embedding\<close>

text \<open>
  The development embeds the extraction pipeline of \<^verbatim>\<open>app/services/extractor.py\<close>,
  \<^verbatim>\<open>app/services/text_utils.py\<close> and \<^verbatim>\<open>app/models/metadata.py\<close>.

  \<^item> A text that the program receives (a transcript, a response of the model, a video id)
    is a \<^typ>\<open>string\<close>; every \<^typ>\<open>char\<close> stands for one code point below 256, so
    \<^term>\<open>length\<close> is Python's \<^verbatim>\<open>len\<close> on such text.
  \<^item> A \<^verbatim>\<open>str\<close> that the JSON decoder returns can hold any code point, because an escape
    \<^verbatim>\<open>\uXXXX\<close> of the text denotes one: it is a list of code points, the type \<open>ustr\<close>.
  \<^item> A Python \<^verbatim>\<open>int\<close> is an \<^typ>\<open>int\<close>.
  \<^item> The arithmetic of Python's \<^verbatim>\<open>float\<close> is not embedded. The JSON decoder reads a float
    by its hook \<^verbatim>\<open>parse_float\<close> (\<^verbatim>\<open>float\<close>, unless the caller sets another), and the encoder
    prints a finite float by \<^verbatim>\<open>float.__repr__\<close>; both are parameters of the functions below,
    written \<open>parse_float\<close> and \<open>float_repr\<close>, and the type \<open>'f\<close> of the finite floats is a
    parameter with them.
  \<^item> Every \<^verbatim>\<open>raise\<close> is a value: a function that can raise returns \<open>exn + 'a\<close>, with
    \<^term>\<open>Inl\<close> carrying the class of the exception.
  \<^item> The language model is a collaborator outside the repository. It is a function from the
    prompt and the number of earlier invocations to what the call does: return a text or
    raise.
  \<^item> Logging and the back-off sleep between attempts have no effect on a returned value
    and are left out.
\<close>

section \<open>Exceptions\<close>

text \<open>
  The classes of \<^verbatim>\<open>Exception\<close> that the code raises or tests for. \<open>TransportError\<close> stands
  for any exception of the model client that is not a \<^verbatim>\<open>ValueError\<close> (connection, timeout,
  attribute errors of a missing client). A client can also raise an exception of the
  \<^verbatim>\<open>ValueError\<close> classes: an answer of the server that is not JSON makes the client's own
  decoding raise \<^verbatim>\<open>JSONDecodeError\<close>, a malformed address or header raises \<^verbatim>\<open>ValueError\<close>.
\<close>

datatype exn = ValueError | JSONDecodeError | ValidationError | KeyError | AttributeError
  | TypeError | OverflowError | TransportError

text \<open>
  \<^verbatim>\<open>isinstance(e, (ValueError, json.JSONDecodeError))\<close>, the retry predicate of
  \<^verbatim>\<open>_call_llm_and_parse\<close>. \<^verbatim>\<open>JSONDecodeError\<close> and pydantic's \<^verbatim>\<open>ValidationError\<close> are
  subclasses of \<^verbatim>\<open>ValueError\<close>.
\<close>

definition is_ValueError :: "exn \<Rightarrow> bool" where
  "is_ValueError e = (e = ValueError \<or> e = JSONDecodeError \<or> e = ValidationError)"

definition bind :: "exn + 'a \<Rightarrow> ('a \<Rightarrow> exn + 'b) \<Rightarrow> exn + 'b" where
  "bind r f = (case r of Inl e \<Rightarrow> Inl e | Inr x \<Rightarrow> f x)"

section \<open>Text utilities (text_utils.py)\<close>

text \<open>
  \<^verbatim>\<open>str.isspace\<close> on a code point below 256: TAB to CR, FS to SPACE, NEL and NBSP.
\<close>

definition isspace :: "char \<Rightarrow> bool" where
  "isspace c = (let n = (of_char c :: nat) in
     (9 \<le> n \<and> n \<le> 13) \<or> (28 \<le> n \<and> n \<le> 32) \<or> n = 133 \<or> n = 160)"

text \<open>\<^verbatim>\<open>s.strip()\<close>: white space removed at both ends.\<close>

definition strip :: "string \<Rightarrow> string" where
  "strip s = rev (dropWhile isspace (rev (dropWhile isspace s)))"

text \<open>\<^verbatim>\<open>s[:k]\<close>: a negative \<open>k\<close> counts from the end, and the bounds are clamped.\<close>

definition slice_to :: "string \<Rightarrow> int \<Rightarrow> string" where
  "slice_to s k = (if k < 0 then take (nat (int (length s) + k)) s else take (nat k) s)"

text \<open>\<^verbatim>\<open>s.rfind(c)\<close>: the highest index of \<open>c\<close> in \<open>s\<close>, or \<open>-1\<close>.\<close>

definition rfind :: "string \<Rightarrow> char \<Rightarrow> int" where
  "rfind s c = (if c \<in> set s
     then int (length s) - 1 - int (length (takeWhile (\<lambda>x. x \<noteq> c) (rev s)))
     else - 1)"

text \<open>The largest length of a Python sequence (\<^verbatim>\<open>sys.maxsize\<close> on a 64-bit build).\<close>

definition PY_SSIZE_T_MAX :: nat where
  "PY_SSIZE_T_MAX = 2 ^ 63 - 1"

text \<open>
  \<^verbatim>\<open>last_period > max_chars * 0.8\<close>. The product converts \<open>max_chars\<close> to a float first,
  which raises \<^verbatim>\<open>OverflowError\<close> when its magnitude rounds beyond the largest double, that
  is from \<open>2\<^sup>1\<^sup>0\<^sup>2\<^sup>4 - 2\<^sup>9\<^sup>7\<^sup>0\<close> on. Otherwise Python compares the integer with the float
  exactly; for \<open>max_chars\<close> below \<open>2\<^sup>5\<^sup>0\<close> in magnitude and for every negative \<open>max_chars\<close>
  the rounding of the product does not change the outcome, and the comparison is the one
  of the rationals, \<open>5 * last_period > 4 * max_chars\<close>, which the embedding takes. The
  comparison is reached only with \<open>max_chars < len(text)\<close>, so the two agree on every
  text of fewer than \<open>2\<^sup>5\<^sup>0\<close> characters.
\<close>

definition float_overflows :: "int \<Rightarrow> bool" where
  "float_overflows m = (\<bar>m\<bar> \<ge> 2 ^ 1024 - 2 ^ 970)"

definition gt_times_0_8 :: "int \<Rightarrow> int \<Rightarrow> exn + bool" where
  "gt_times_0_8 p m = (if float_overflows m then Inl OverflowError else Inr (5 * p > 4 * m))"

text \<open>\<^verbatim>\<open>truncate_transcript(text, max_chars)\<close>, text_utils.py lines 118 to 132.\<close>

definition truncate_transcript :: "string \<Rightarrow> int \<Rightarrow> exn + string" where
  "truncate_transcript text max_chars =
     (if int (length text) \<le> max_chars then Inr text
      else
        let truncated = slice_to text max_chars;
            last_period = rfind truncated (CHR ''.'')
        in case gt_times_0_8 last_period max_chars of
             Inl e \<Rightarrow> Inl e
           | Inr b \<Rightarrow>
               Inr (strip (if b then slice_to truncated (last_period + 1) else truncated)))"

section \<open>The record schema (metadata.py)\<close>

text \<open>
  The text fields of a record are taken from the decoded answer of the model, so they are
  lists of code points, each the \<^verbatim>\<open>int\<close> that \<^verbatim>\<open>ord\<close> gives; \<open>ustr\<close> gives the code points of a
  text of the other kind.
\<close>

type_synonym ustr = "int list"

definition ustr :: "string \<Rightarrow> ustr" where
  "ustr s = map of_char s"

record DiagnosticLayer =
  related_inner_issues :: ustr
  reality_commitment_check :: ustr
  hidden_benefit :: ustr
  energy_node :: ustr

record Pillars =
  intervention_narrative :: ustr
  intervention_action :: ustr
  intervention_shift :: ustr

record Atmosphere =
  tone :: ustr
  pacing :: ustr

record EnergyNode =
  video_id :: string
  video_url :: string
  main_question :: ustr
  category :: ustr
  diagnostic_layer :: DiagnosticLayer
  pillars :: Pillars
  atmosphere :: Atmosphere
  overflow :: "ustr list"

text \<open>\<^verbatim>\<open>EnergyNode.embed_text\<close>, metadata.py lines 244 to 260: an f-string.\<close>

definition embed_text :: "EnergyNode \<Rightarrow> ustr" where
  "embed_text self =
     (let dl = diagnostic_layer self
      in main_question self @ ustr '' '' @ category self @ ustr '' '' @
         related_inner_issues dl @ ustr '' '' @ reality_commitment_check dl @ ustr '' '' @
         hidden_benefit dl @ ustr '' '' @ energy_node dl)"

section \<open>JSON values and the decoder (json.loads)\<close>

text \<open>
  What \<^verbatim>\<open>json.loads\<close> returns. A \<^verbatim>\<open>dict\<close> is an association list with distinct keys in
  insertion order. A float is a finite one, of the type \<open>'f\<close>, or one of the three values
  that the encoder tells from the finite ones.
\<close>

datatype 'f pyfloat = Finite 'f | NaN | PosInf | NegInf

datatype 'f json = JNull | JBool bool | JInt int | JFloat "'f pyfloat" | JStr ustr
  | JArr "'f json list" | JObj "(ustr \<times> 'f json) list"

definition is_digit :: "char \<Rightarrow> bool" where
  "is_digit c = (48 \<le> (of_char c :: nat) \<and> (of_char c :: nat) \<le> 57)"

definition digit_val :: "char \<Rightarrow> nat" where
  "digit_val c = of_char c - 48"

definition nat_of_digits :: "string \<Rightarrow> nat" where
  "nat_of_digits ds = foldl (\<lambda>a d. 10 * a + digit_val d) 0 ds"

text \<open>\<^verbatim>\<open>int(s)\<close> on a text of the shape \<^verbatim>\<open>-?\d+\<close>.\<close>

definition int_of_literal :: "string \<Rightarrow> int" where
  "int_of_literal s =
     (case s of
        [] \<Rightarrow> 0
      | c # t \<Rightarrow> if c = CHR ''-'' then - int (nat_of_digits t) else int (nat_of_digits s))"

text \<open>The decoder's white space: space, TAB, LF, CR.\<close>

definition is_json_ws :: "char \<Rightarrow> bool" where
  "is_json_ws c = (c = CHR '' '' \<or> c = CHR 0x09 \<or> c = CHR 0x0A \<or> c = CHR 0x0D)"

definition skip_ws :: "string \<Rightarrow> string" where
  "skip_ws s = dropWhile is_json_ws s"

definition hex_val :: "char \<Rightarrow> int option" where
  "hex_val c = (let n = (of_char c :: int) in
     if 48 \<le> n \<and> n \<le> 57 then Some (n - 48)
     else if 97 \<le> n \<and> n \<le> 102 then Some (n - 87)
     else if 65 \<le> n \<and> n \<le> 70 then Some (n - 55)
     else None)"

text \<open>The four hexadecimal digits after \<^verbatim>\<open>\u\<close>.\<close>

definition decode_uXXXX :: "string \<Rightarrow> int option" where
  "decode_uXXXX s = (case map hex_val (take 4 s) of
       [Some a, Some b, Some c, Some d] \<Rightarrow> Some (((a * 16 + b) * 16 + c) * 16 + d)
     | _ \<Rightarrow> None)"

text \<open>The decoder's table of one-letter escapes.\<close>

definition BACKSLASH :: "char \<Rightarrow> char option" where
  "BACKSLASH e =
     (if e = CHR 0x22 then Some (CHR 0x22)
      else if e = CHR 0x5C then Some (CHR 0x5C)
      else if e = CHR ''/'' then Some (CHR ''/'')
      else if e = CHR ''b'' then Some (CHR 0x08)
      else if e = CHR ''f'' then Some (CHR 0x0C)
      else if e = CHR ''n'' then Some (CHR 0x0A)
      else if e = CHR ''r'' then Some (CHR 0x0D)
      else if e = CHR ''t'' then Some (CHR 0x09)
      else None)"

text \<open>
  The two halves of a surrogate pair, and the code point beyond \<open>0xFFFF\<close> that a pair
  stands for.
\<close>

definition is_high_surrogate :: "int \<Rightarrow> bool" where
  "is_high_surrogate n = (0xD800 \<le> n \<and> n \<le> 0xDBFF)"

definition is_low_surrogate :: "int \<Rightarrow> bool" where
  "is_low_surrogate n = (0xDC00 \<le> n \<and> n \<le> 0xDFFF)"

definition join_surrogates :: "int \<Rightarrow> int \<Rightarrow> int" where
  "join_surrogates hi lo = 0x10000 + ((hi - 0xD800) * 1024 + (lo - 0xDC00))"

definition cons_result :: "int \<Rightarrow> (ustr \<times> string) option \<Rightarrow> (ustr \<times> string) option" where
  "cons_result c r = (case r of None \<Rightarrow> None | Some (str, rest) \<Rightarrow> Some (c # str, rest))"

text \<open>
  The body of a string literal, read from behind its opening quote: the decoded code
  points and the input behind the closing quote. A raw control character is refused
  (strict mode). An escape \<^verbatim>\<open>\uXXXX\<close> of a high surrogate that is followed at once by an
  escape \<^verbatim>\<open>\uXXXX\<close> of a low surrogate is read with it as one code point; any other escape
  \<^verbatim>\<open>\uXXXX\<close> is the code point \<open>XXXX\<close>, a lone surrogate included.
\<close>

fun scanstring :: "string \<Rightarrow> (ustr \<times> string) option" where
  "scanstring [] = None"
| "scanstring (c # cs) =
     (if c = CHR 0x22 then Some ([], cs)
      else if c = CHR 0x5C then
        (case cs of
           [] \<Rightarrow> None
         | e # cs' \<Rightarrow>
             if e = CHR ''u'' then
               (case decode_uXXXX cs' of
                  None \<Rightarrow> None
                | Some uni \<Rightarrow>
                    if is_high_surrogate uni \<and> take 2 (drop 4 cs') = [CHR 0x5C, CHR ''u''] then
                      (case decode_uXXXX (drop 6 cs') of
                         None \<Rightarrow> None
                       | Some uni2 \<Rightarrow>
                           if is_low_surrogate uni2
                           then cons_result (join_surrogates uni uni2) (scanstring (drop 10 cs'))
                           else cons_result uni (scanstring (drop 4 cs')))
                    else cons_result uni (scanstring (drop 4 cs')))
             else
               (case BACKSLASH e of
                  None \<Rightarrow> None
                | Some ch \<Rightarrow> cons_result (of_char ch) (scanstring cs')))
      else if (of_char c :: nat) < 32 then None
      else cons_result (of_char c) (scanstring cs))"

text \<open>
  The number pattern \<^verbatim>\<open>(-?(?:0|[1-9]\d*))(\.\d+)?([eE][-+]?\d+)?\<close>, group by group: each
  function gives the text that its group matches and the input behind it. Each group is
  greedy, and an optional group that cannot match is empty and leaves the input where it
  is.
\<close>

definition match_int_part :: "string \<Rightarrow> (string \<times> string) option" where
  "match_int_part s =
     (let sign = (if s \<noteq> [] \<and> hd s = CHR ''-'' then ''-'' else []);
          s1 = drop (length sign) s
      in case s1 of
           [] \<Rightarrow> None
         | d # t \<Rightarrow>
             if d = CHR ''0'' then Some (sign @ [d], t)
             else if is_digit d then Some (sign @ d # takeWhile is_digit t, dropWhile is_digit t)
             else None)"

definition match_frac :: "string \<Rightarrow> string \<times> string" where
  "match_frac s =
     (case s of
        [] \<Rightarrow> ([], s)
      | c # t \<Rightarrow>
          if c = CHR ''.'' \<and> takeWhile is_digit t \<noteq> []
          then (c # takeWhile is_digit t, dropWhile is_digit t)
          else ([], s))"

definition match_exp :: "string \<Rightarrow> string \<times> string" where
  "match_exp s =
     (case s of
        [] \<Rightarrow> ([], s)
      | c # t \<Rightarrow>
          if c = CHR ''e'' \<or> c = CHR ''E'' then
            (let sign = (if t \<noteq> [] \<and> (hd t = CHR ''-'' \<or> hd t = CHR ''+'') then [hd t] else []);
                 t1 = drop (length sign) t
             in if takeWhile is_digit t1 = [] then ([], s)
                else (c # sign @ takeWhile is_digit t1, dropWhile is_digit t1))
          else ([], s))"

text \<open>
  A number without fraction and exponent is an \<^verbatim>\<open>int\<close>; any other is what \<open>parse_float\<close>
  makes of the matched text.
\<close>

definition parse_number :: "(string \<Rightarrow> 'f pyfloat) \<Rightarrow> string \<Rightarrow> ('f json \<times> string) option" where
  "parse_number parse_float s =
     (case match_int_part s of
        None \<Rightarrow> None
      | Some (integer, r1) \<Rightarrow>
          (case match_frac r1 of (frac, r2) \<Rightarrow>
            (case match_exp r2 of (exp, r3) \<Rightarrow>
               if frac = [] \<and> exp = [] then Some (JInt (int_of_literal integer), r3)
               else Some (JFloat (parse_float (integer @ frac @ exp)), r3))))"

definition parse_constant :: "(string \<Rightarrow> 'f pyfloat) \<Rightarrow> string \<Rightarrow> ('f json \<times> string) option" where
  "parse_constant parse_float s =
     (if take 4 s = ''null'' then Some (JNull, drop 4 s)
      else if take 4 s = ''true'' then Some (JBool True, drop 4 s)
      else if take 5 s = ''false'' then Some (JBool False, drop 5 s)
      else if take 3 s = ''NaN'' then Some (JFloat NaN, drop 3 s)
      else if take 8 s = ''Infinity'' then Some (JFloat PosInf, drop 8 s)
      else if take 9 s = ''-Infinity'' then Some (JFloat NegInf, drop 9 s)
      else parse_number parse_float s)"

text \<open>\<^verbatim>\<open>dict(pairs)\<close>: a later pair of a key replaces the value and keeps the place.\<close>

definition dict :: "(ustr \<times> 'f json) list \<Rightarrow> (ustr \<times> 'f json) list" where
  "dict pairs = foldl (\<lambda>d (k, v). AList.update k v d) [] pairs"

text \<open>
  The recursive descent of the decoder: \<open>scan_once\<close> reads one value; \<open>parse_array\<close> reads
  the elements of a non-empty array up to its closing bracket; \<open>parse_object\<close> reads the
  members of a non-empty object, from the quote of a key up to the closing brace. Each
  returns what it read and the rest of the input. The second argument bounds the number of
  nested calls, which makes the recursion structural; \<open>json_loads\<close> starts it from twice
  the length of the text, a bound that no run reaches (\<open>fuel_adequate\<close> below). The
  interpreter's own limits (recursion depth, digits of an integer literal) are not part
  of the embedding.
\<close>

fun scan_once :: "(string \<Rightarrow> 'f pyfloat) \<Rightarrow> nat \<Rightarrow> string \<Rightarrow> ('f json \<times> string) option"
and parse_array :: "(string \<Rightarrow> 'f pyfloat) \<Rightarrow> nat \<Rightarrow> string \<Rightarrow> ('f json list \<times> string) option"
and parse_object :: "(string \<Rightarrow> 'f pyfloat) \<Rightarrow> nat \<Rightarrow> string
    \<Rightarrow> ((ustr \<times> 'f json) list \<times> string) option"
where
  "scan_once parse_float 0 s = None"
| "scan_once parse_float (Suc n) s =
     (case s of
        [] \<Rightarrow> None
      | c # cs \<Rightarrow>
          if c = CHR 0x22 then
            (case scanstring cs of None \<Rightarrow> None | Some (str, r) \<Rightarrow> Some (JStr str, r))
          else if c = CHR ''{'' then
            (case skip_ws cs of
               [] \<Rightarrow> None
             | d # r \<Rightarrow>
                 if d = CHR ''}'' then Some (JObj [], r)
                 else (case parse_object parse_float n (d # r) of
                         None \<Rightarrow> None
                       | Some (pairs, r') \<Rightarrow> Some (JObj (dict pairs), r')))
          else if c = CHR ''['' then
            (case skip_ws cs of
               [] \<Rightarrow> None
             | d # r \<Rightarrow>
                 if d = CHR '']'' then Some (JArr [], r)
                 else (case parse_array parse_float n (d # r) of
                         None \<Rightarrow> None
                       | Some (vs, r') \<Rightarrow> Some (JArr vs, r')))
          else parse_constant parse_float s)"
| "parse_array parse_float 0 s = None"
| "parse_array parse_float (Suc n) s =
     (case scan_once parse_float n s of
        None \<Rightarrow> None
      | Some (v, r) \<Rightarrow>
          (case skip_ws r of
             [] \<Rightarrow> None
           | c # r' \<Rightarrow>
               if c = CHR '']'' then Some ([v], r')
               else if c = CHR '','' then
                 (case parse_array parse_float n (skip_ws r') of
                    None \<Rightarrow> None
                  | Some (vs, r'') \<Rightarrow> Some (v # vs, r''))
               else None))"
| "parse_object parse_float 0 s = None"
| "parse_object parse_float (Suc n) s =
     (case s of
        [] \<Rightarrow> None
      | q # s0 \<Rightarrow>
          if q \<noteq> CHR 0x22 then None
          else
            (case scanstring s0 of
               None \<Rightarrow> None
             | Some (key, r) \<Rightarrow>
                 (case skip_ws r of
                    [] \<Rightarrow> None
                  | c # r1 \<Rightarrow>
                      if c \<noteq> CHR '':'' then None
                      else
                        (case scan_once parse_float n (skip_ws r1) of
                           None \<Rightarrow> None
                         | Some (v, r2) \<Rightarrow>
                             (case skip_ws r2 of
                                [] \<Rightarrow> None
                              | d # r3 \<Rightarrow>
                                  if d = CHR ''}'' then Some ([(key, v)], r3)
                                  else if d = CHR '','' then
                                    (case parse_object parse_float n (skip_ws r3) of
                                       None \<Rightarrow> None
                                     | Some (pairs, r4) \<Rightarrow> Some ((key, v) # pairs, r4))
                                  else None)))))"

text \<open>
  \<^verbatim>\<open>json.loads(s)\<close>: one value between optional white space and nothing else; \<open>None\<close> is
  \<^verbatim>\<open>JSONDecodeError\<close>.
\<close>

definition json_loads :: "(string \<Rightarrow> 'f pyfloat) \<Rightarrow> string \<Rightarrow> 'f json option" where
  "json_loads parse_float s =
     (case scan_once parse_float (2 * length s + 1) (skip_ws s) of
        None \<Rightarrow> None
      | Some (v, r) \<Rightarrow> if skip_ws r = [] then Some v else None)"

section \<open>The encoder (json.dumps)\<close>

definition digit_char :: "nat \<Rightarrow> char" where
  "digit_char d = char_of (48 + d)"

fun show_nat :: "nat \<Rightarrow> string" where
  "show_nat n = (if n < 10 then [digit_char n] else show_nat (n div 10) @ [digit_char (n mod 10)])"

definition show_int :: "int \<Rightarrow> string" where
  "show_int i = (if i < 0 then CHR ''-'' # show_nat (nat (- i)) else show_nat (nat i))"

text \<open>
  The encoder's \<^verbatim>\<open>floatstr\<close>: the three names for the values that are not finite, and
  \<open>float_repr\<close> for a finite float.
\<close>

fun floatstr :: "('f \<Rightarrow> string) \<Rightarrow> 'f pyfloat \<Rightarrow> string" where
  "floatstr float_repr (Finite x) = float_repr x"
| "floatstr float_repr NaN = ''NaN''"
| "floatstr float_repr PosInf = ''Infinity''"
| "floatstr float_repr NegInf = ''-Infinity''"

definition hex_char :: "int \<Rightarrow> char" where
  "hex_char d = (if d < 10 then char_of (48 + d) else char_of (87 + d))"

text \<open>\<^verbatim>\<open>'{0:04x}'.format(n)\<close> for \<open>n\<close> below \<open>0x10000\<close>.\<close>

definition hex4 :: "int \<Rightarrow> string" where
  "hex4 n = [hex_char (n div 4096 mod 16), hex_char (n div 256 mod 16),
             hex_char (n div 16 mod 16), hex_char (n mod 16)]"

text \<open>
  The encoder's replacement of one code point under \<^verbatim>\<open>ensure_ascii\<close>: the quote, the
  backslash and the five named control characters have a short escape, a printable ASCII
  character stands for itself, any other code point below \<open>0x10000\<close> is \<^verbatim>\<open>\uXXXX\<close>, and a
  code point from \<open>0x10000\<close> on is the escapes of its two surrogates.
\<close>

definition escape_char :: "int \<Rightarrow> string" where
  "escape_char n =
     (if n = 0x22 then [CHR 0x5C, CHR 0x22]
      else if n = 0x5C then [CHR 0x5C, CHR 0x5C]
      else if n = 0x0A then [CHR 0x5C, CHR ''n'']
      else if n = 0x0D then [CHR 0x5C, CHR ''r'']
      else if n = 0x09 then [CHR 0x5C, CHR ''t'']
      else if n = 0x08 then [CHR 0x5C, CHR ''b'']
      else if n = 0x0C then [CHR 0x5C, CHR ''f'']
      else if 32 \<le> n \<and> n \<le> 126 then [char_of n]
      else if n < 0x10000 then [CHR 0x5C, CHR ''u''] @ hex4 n
      else [CHR 0x5C, CHR ''u''] @ hex4 (0xD800 + (n - 0x10000) div 1024 mod 1024)
         @ [CHR 0x5C, CHR ''u''] @ hex4 (0xDC00 + (n - 0x10000) mod 1024))"

definition encode_string :: "ustr \<Rightarrow> string" where
  "encode_string s = CHR 0x22 # concat (map escape_char s) @ [CHR 0x22]"

text \<open>\<^verbatim>\<open>json.dumps(v)\<close> with its default separators \<^verbatim>\<open>", "\<close> and \<^verbatim>\<open>": "\<close>.\<close>

fun json_dumps :: "('f \<Rightarrow> string) \<Rightarrow> 'f json \<Rightarrow> string"
and dumps_items :: "('f \<Rightarrow> string) \<Rightarrow> 'f json list \<Rightarrow> string"
and dumps_members :: "('f \<Rightarrow> string) \<Rightarrow> (ustr \<times> 'f json) list \<Rightarrow> string"
where
  "json_dumps float_repr JNull = ''null''"
| "json_dumps float_repr (JBool b) = (if b then ''true'' else ''false'')"
| "json_dumps float_repr (JInt i) = show_int i"
| "json_dumps float_repr (JFloat f) = floatstr float_repr f"
| "json_dumps float_repr (JStr s) = encode_string s"
| "json_dumps float_repr (JArr vs) = ''['' @ dumps_items float_repr vs @ '']''"
| "json_dumps float_repr (JObj ps) = ''{'' @ dumps_members float_repr ps @ ''}''"
| "dumps_items float_repr [] = []"
| "dumps_items float_repr [v] = json_dumps float_repr v"
| "dumps_items float_repr (v # w # vs) =
     json_dumps float_repr v @ '', '' @ dumps_items float_repr (w # vs)"
| "dumps_members float_repr [] = []"
| "dumps_members float_repr [(k, v)] = encode_string k @ '': '' @ json_dumps float_repr v"
| "dumps_members float_repr ((k, v) # p # ps) =
     encode_string k @ '': '' @ json_dumps float_repr v @ '', '' @ dumps_members float_repr (p # ps)"

section \<open>The response parser (extractor.py, lines 146 to 172)\<close>

text \<open>
  \<^verbatim>\<open>re.sub(r"```(?:json)?", "", text)\<close>: from left to right, every run of three backquotes
  is removed, together with the word \<^verbatim>\<open>json\<close> when it follows at once.
\<close>

fun strip_fences :: "string \<Rightarrow> string" where
  "strip_fences [] = []"
| "strip_fences (c # cs) =
     (if take 7 (c # cs) = ''```json'' then strip_fences (drop 6 cs)
      else if take 3 (c # cs) = ''```'' then strip_fences (drop 2 cs)
      else c # strip_fences cs)"

text \<open>
  \<^verbatim>\<open>re.search(r"\[.*\]", text, re.DOTALL)\<close>: the span from the first opening bracket to
  the last closing bracket behind it, if there is one.
\<close>

definition search_bracket_span :: "string \<Rightarrow> string option" where
  "search_bracket_span text =
     (let s1 = dropWhile (\<lambda>c. c \<noteq> CHR ''['') text
      in if CHR '']'' \<in> set s1
         then Some (rev (dropWhile (\<lambda>c. c \<noteq> CHR '']'') (rev s1)))
         else None)"

text \<open>
  One \<^verbatim>\<open>try\<close> block of the parser: the decoded value when decoding succeeds with a list,
  nothing when it fails or gives another value.
\<close>

definition loads_list :: "(string \<Rightarrow> 'f pyfloat) \<Rightarrow> string \<Rightarrow> 'f json list option" where
  "loads_list parse_float s =
     (case json_loads parse_float s of Some (JArr xs) \<Rightarrow> Some xs | _ \<Rightarrow> None)"

definition extract_json_array :: "(string \<Rightarrow> 'f pyfloat) \<Rightarrow> string \<Rightarrow> exn + 'f json list" where
  "extract_json_array parse_float text0 =
     (let text = strip (strip_fences text0)
      in case loads_list parse_float text of
           Some parsed \<Rightarrow> Inr parsed
         | None \<Rightarrow>
             (case search_bracket_span text of
                None \<Rightarrow> Inl ValueError
              | Some m \<Rightarrow>
                  (case loads_list parse_float m of
                     Some parsed \<Rightarrow> Inr parsed
                   | None \<Rightarrow> Inl ValueError)))"

section \<open>Validation of the parsed items (extractor.py, lines 206 to 238)\<close>

text \<open>\<^verbatim>\<open>obj.get(key, default)\<close>: only a \<^verbatim>\<open>dict\<close> has the method.\<close>

definition py_get :: "'f json \<Rightarrow> ustr \<Rightarrow> 'f json \<Rightarrow> exn + 'f json" where
  "py_get obj key dflt =
     (case obj of
        JObj kvs \<Rightarrow> Inr (case map_of kvs key of None \<Rightarrow> dflt | Some v \<Rightarrow> v)
      | _ \<Rightarrow> Inl AttributeError)"

text \<open>\<^verbatim>\<open>obj[key]\<close> with a string key.\<close>

definition py_getitem :: "'f json \<Rightarrow> ustr \<Rightarrow> exn + 'f json" where
  "py_getitem obj key =
     (case obj of
        JObj kvs \<Rightarrow> (case map_of kvs key of None \<Rightarrow> Inl KeyError | Some v \<Rightarrow> Inr v)
      | _ \<Rightarrow> Inl TypeError)"

text \<open>
  The validation of a pydantic field of type \<^verbatim>\<open>str\<close> (version 2, which \<^verbatim>\<open>model_dump\<close>
  belongs to): a string is taken as it is, also the empty one; nothing else is coerced.
\<close>

definition str_field :: "'f json \<Rightarrow> exn + ustr" where
  "str_field v = (case v of JStr s \<Rightarrow> Inr s | _ \<Rightarrow> Inl ValidationError)"

text \<open>A required field of a model built from keyword arguments.\<close>

definition required_str :: "(ustr \<times> 'f json) list \<Rightarrow> ustr \<Rightarrow> exn + ustr" where
  "required_str kwargs name =
     (case map_of kwargs name of None \<Rightarrow> Inl ValidationError | Some v \<Rightarrow> str_field v)"

fun str_list_field :: "'f json list \<Rightarrow> exn + ustr list" where
  "str_list_field [] = Inr []"
| "str_list_field (v # vs) =
     bind (str_field v) (\<lambda>s. bind (str_list_field vs) (\<lambda>ss. Inr (s # ss)))"

text \<open>The field \<^verbatim>\<open>overflow: List[str]\<close>.\<close>

definition overflow_field :: "'f json \<Rightarrow> exn + ustr list" where
  "overflow_field v = (case v of JArr vs \<Rightarrow> str_list_field vs | _ \<Rightarrow> Inl ValidationError)"

text \<open>\<^verbatim>\<open>DiagnosticLayer(related_inner_issues=..., ...)\<close>.\<close>

definition new_DiagnosticLayer ::
    "'f json \<Rightarrow> 'f json \<Rightarrow> 'f json \<Rightarrow> 'f json \<Rightarrow> exn + DiagnosticLayer" where
  "new_DiagnosticLayer rii rcc hb en =
     bind (str_field rii) (\<lambda>a. bind (str_field rcc) (\<lambda>b.
     bind (str_field hb) (\<lambda>c. bind (str_field en) (\<lambda>d.
       Inr \<lparr>related_inner_issues = a, reality_commitment_check = b,
            hidden_benefit = c, energy_node = d\<rparr>))))"

text \<open>
  \<^verbatim>\<open>Pillars(**x)\<close> and \<^verbatim>\<open>Atmosphere(**x)\<close>: \<open>x\<close> has to be a mapping; keys that are not
  fields are ignored.
\<close>

definition new_Pillars :: "'f json \<Rightarrow> exn + Pillars" where
  "new_Pillars x =
     (case x of
        JObj kwargs \<Rightarrow>
          bind (required_str kwargs (ustr ''intervention_narrative'')) (\<lambda>a.
          bind (required_str kwargs (ustr ''intervention_action'')) (\<lambda>b.
          bind (required_str kwargs (ustr ''intervention_shift'')) (\<lambda>c.
            Inr \<lparr>intervention_narrative = a, intervention_action = b,
                 intervention_shift = c\<rparr>)))
      | _ \<Rightarrow> Inl TypeError)"

definition new_Atmosphere :: "'f json \<Rightarrow> exn + Atmosphere" where
  "new_Atmosphere x =
     (case x of
        JObj kwargs \<Rightarrow>
          bind (required_str kwargs (ustr ''tone'')) (\<lambda>a.
          bind (required_str kwargs (ustr ''pacing'')) (\<lambda>b.
            Inr \<lparr>tone = a, pacing = b\<rparr>))
      | _ \<Rightarrow> Inl TypeError)"

definition new_EnergyNode :: "string \<Rightarrow> string \<Rightarrow> 'f json \<Rightarrow> 'f json \<Rightarrow> DiagnosticLayer
    \<Rightarrow> Pillars \<Rightarrow> Atmosphere \<Rightarrow> 'f json \<Rightarrow> exn + EnergyNode" where
  "new_EnergyNode vid url mq cat dl p a ov =
     bind (str_field mq) (\<lambda>mq'. bind (str_field cat) (\<lambda>cat'.
     bind (overflow_field ov) (\<lambda>ov'.
       Inr \<lparr>video_id = vid, video_url = url, main_question = mq', category = cat',
            diagnostic_layer = dl, pillars = p, atmosphere = a, overflow = ov'\<rparr>)))"

text \<open>The body of the \<^verbatim>\<open>try\<close> block of \<^verbatim>\<open>_validate_nodes\<close>, for one item.\<close>

definition build_node :: "string \<Rightarrow> string \<Rightarrow> 'f json \<Rightarrow> exn + EnergyNode" where
  "build_node vid url item =
     bind (py_get item (ustr ''diagnostic_layer'') (JObj [])) (\<lambda>dl_raw.
     bind (py_get dl_raw (ustr ''related_inner_issues'') (JStr [])) (\<lambda>rii.
     bind (py_get dl_raw (ustr ''reality_commitment_check'') (JStr [])) (\<lambda>rcc.
     bind (py_get dl_raw (ustr ''hidden_benefit'') (JStr [])) (\<lambda>hb.
     bind (py_get dl_raw (ustr ''energy_node'') (JStr [])) (\<lambda>en.
     bind (new_DiagnosticLayer rii rcc hb en) (\<lambda>dl.
     bind (py_getitem item (ustr ''main_question'')) (\<lambda>mq.
     bind (py_getitem item (ustr ''category'')) (\<lambda>cat.
     bind (py_getitem item (ustr ''pillars'')) (\<lambda>p_raw.
     bind (new_Pillars p_raw) (\<lambda>p.
     bind (py_getitem item (ustr ''atmosphere'')) (\<lambda>a_raw.
     bind (new_Atmosphere a_raw) (\<lambda>a.
     bind (py_get item (ustr ''overflow'') (JArr [])) (\<lambda>ov.
       new_EnergyNode vid url mq cat dl p a ov)))))))))))))"

text \<open>
  The loop of \<^verbatim>\<open>_validate_nodes\<close>: \<open>nodes\<close> is the list built so far; an item whose
  construction raises is skipped by the \<^verbatim>\<open>except Exception\<close> clause.
\<close>

fun validate_loop :: "string \<Rightarrow> string \<Rightarrow> 'f json list \<Rightarrow> EnergyNode list \<Rightarrow> EnergyNode list" where
  "validate_loop vid url [] nodes = nodes"
| "validate_loop vid url (item # rest) nodes =
     validate_loop vid url rest
       (case build_node vid url item of Inr node \<Rightarrow> nodes @ [node] | Inl exc \<Rightarrow> nodes)"

definition validate_nodes :: "'f json list \<Rightarrow> string \<Rightarrow> string \<Rightarrow> EnergyNode list" where
  "validate_nodes raw_list vid url = validate_loop vid url raw_list []"

section \<open>The model call with retry (extractor.py, lines 176 to 203)\<close>

text \<open>
  What one invocation of the model client does. The client is given by its behaviour: the
  outcome of the invocation that follows \<open>k\<close> earlier ones, for the transcript in the prompt.
  An exception raised while the client is built (\<^verbatim>\<open>get_llm\<close>) or while its answer is read
  is an outcome of that invocation.
\<close>

datatype llm_outcome = Response string | Raises exn

type_synonym llm = "string \<Rightarrow> nat \<Rightarrow> llm_outcome"

text \<open>
  The body of \<^verbatim>\<open>_call_llm_and_parse\<close>, one attempt: the model is invoked and its text is
  parsed. The second component counts the invocations made so far.
\<close>

definition llm_and_parse_once ::
    "(string \<Rightarrow> 'f pyfloat) \<Rightarrow> llm \<Rightarrow> string \<Rightarrow> nat \<Rightarrow> (exn + 'f json list) \<times> nat" where
  "llm_and_parse_once parse_float client transcript calls =
     (case client transcript calls of
        Raises e \<Rightarrow> (Inl e, Suc calls)
      | Response raw \<Rightarrow> (extract_json_array parse_float raw, Suc calls))"

text \<open>\<^verbatim>\<open>stop_after_attempt(3)\<close>.\<close>

definition MAX_ATTEMPTS :: nat where
  "MAX_ATTEMPTS = 3"

text \<open>
  The \<^verbatim>\<open>@retry\<close> decorator: after a failed attempt the call is repeated when the exception
  is a \<^verbatim>\<open>ValueError\<close> and the attempts are not used up; otherwise the exception is raised
  again (\<^verbatim>\<open>reraise=True\<close>). The decorator wraps the whole body, so it sees the exceptions
  of the model client as it sees those of the parser.
\<close>

function retrying ::
    "(string \<Rightarrow> 'f pyfloat) \<Rightarrow> llm \<Rightarrow> string \<Rightarrow> nat \<Rightarrow> nat \<Rightarrow> (exn + 'f json list) \<times> nat" where
  "retrying parse_float client transcript attempt_number calls =
     (case llm_and_parse_once parse_float client transcript calls of
        (Inr parsed, calls') \<Rightarrow> (Inr parsed, calls')
      | (Inl e, calls') \<Rightarrow>
          if is_ValueError e \<and> attempt_number < MAX_ATTEMPTS
          then retrying parse_float client transcript (Suc attempt_number) calls'
          else (Inl e, calls'))"
  by pat_completeness auto
termination
  by (relation "measure (\<lambda>(parse_float, client, transcript, attempt_number, calls).
        MAX_ATTEMPTS - attempt_number)")
    auto

declare retrying.simps [simp del]

definition call_llm_and_parse ::
    "(string \<Rightarrow> 'f pyfloat) \<Rightarrow> llm \<Rightarrow> string \<Rightarrow> (exn + 'f json list) \<times> nat" where
  "call_llm_and_parse parse_float client transcript = retrying parse_float client transcript 1 0"

section \<open>The extraction operation (extractor.py, lines 241 to 274)\<close>

text \<open>
  \<^verbatim>\<open>extract_energy_nodes\<close>. The truncation stands before the \<^verbatim>\<open>try\<close> block; the block
  holds the model call alone, and its \<^verbatim>\<open>except Exception\<close> clause returns the empty list.
  The result is what the caller sees (a list, or an exception that escapes) and the
  number of invocations of the model.
\<close>

definition extract_energy_nodes :: "(string \<Rightarrow> 'f pyfloat) \<Rightarrow> llm \<Rightarrow> string \<Rightarrow> string \<Rightarrow> string
    \<Rightarrow> int \<Rightarrow> (exn + EnergyNode list) \<times> nat" where
  "extract_energy_nodes parse_float client transcript vid url max_chars =
     (case truncate_transcript transcript max_chars of
        Inl e \<Rightarrow> (Inl e, 0)
      | Inr truncated \<Rightarrow>
          (case call_llm_and_parse parse_float client truncated of
             (Inl exc, calls) \<Rightarrow> (Inr [], calls)
           | (Inr raw_list, calls) \<Rightarrow> (Inr (validate_nodes raw_list vid url), calls)))"

section \<open>Notions used in the statements\<close>

text \<open>
  A decoded string as the decoder returns it: every element is a code point, and no high
  surrogate stands directly before a low surrogate (the decoder reads such a pair of
  escapes as one code point, and the text it reads has no code point beyond 255 of its
  own).
\<close>

fun no_surrogate_pair :: "ustr \<Rightarrow> bool" where
  "no_surrogate_pair [] = True"
| "no_surrogate_pair [x] = True"
| "no_surrogate_pair (x # y # s) =
     (\<not> (is_high_surrogate x \<and> is_low_surrogate y) \<and> no_surrogate_pair (y # s))"

definition wf_str :: "ustr \<Rightarrow> bool" where
  "wf_str s = (list_all (\<lambda>c. 0 \<le> c \<and> c < 0x110000) s \<and> no_surrogate_pair s)"

text \<open>
  A value as the decoder returns it: its strings are as above, and the keys of every
  \<^verbatim>\<open>dict\<close> are distinct.
\<close>

fun wf_json :: "'f json \<Rightarrow> bool"
and wf_items :: "'f json list \<Rightarrow> bool"
and wf_members :: "(ustr \<times> 'f json) list \<Rightarrow> bool"
where
  "wf_json (JStr s) = wf_str s"
| "wf_json (JArr vs) = wf_items vs"
| "wf_json (JObj ps) = (distinct (map fst ps) \<and> wf_members ps)"
| "wf_json v = True"
| "wf_items [] = True"
| "wf_items (v # vs) = (wf_json v \<and> wf_items vs)"
| "wf_members [] = True"
| "wf_members ((k, v) # ps) = (wf_str k \<and> wf_json v \<and> wf_members ps)"

text \<open>
  A text that the number pattern matches as a whole, with a fraction or an exponent: a
  literal that the decoder hands to \<open>parse_float\<close>.
\<close>

definition float_literal :: "string \<Rightarrow> bool" where
  "float_literal s =
     (case match_int_part s of
        None \<Rightarrow> False
      | Some (integer, r1) \<Rightarrow>
          (case match_frac r1 of (frac, r2) \<Rightarrow>
            (case match_exp r2 of (exp, r3) \<Rightarrow> r3 = [] \<and> (frac \<noteq> [] \<or> exp \<noteq> []))))"

text \<open>The characters that a JSON value can begin with, and the ends of the input behind a
  value inside a serialized array or object.\<close>

definition value_start :: "char \<Rightarrow> bool" where
  "value_start c = (is_digit c \<or> c = CHR ''-'' \<or> c = CHR 0x22 \<or> c = CHR ''{'' \<or> c = CHR ''[''
     \<or> c = CHR ''n'' \<or> c = CHR ''t'' \<or> c = CHR ''f'' \<or> c = CHR ''N'' \<or> c = CHR ''I'')"

definition value_end :: "string \<Rightarrow> bool" where
  "value_end rest = (rest = [] \<or> hd rest = CHR '','' \<or> hd rest = CHR '']'' \<or> hd rest = CHR ''}'')"

text \<open>The text holds a run of three backquotes, the marker of a code fence.\<close>

fun has_fence :: "string \<Rightarrow> bool" where
  "has_fence [] = False"
| "has_fence (c # cs) = (take 3 (c # cs) = ''```'' \<or> has_fence cs)"

text \<open>
  The recursive equations are unfolded by hand in the proofs below.
\<close>

declare show_nat.simps [simp del]
declare scan_once.simps(2) [simp del] parse_array.simps(2) [simp del] parse_object.simps(2) [simp del]

section \<open>Example inputs\<close>



definition decimal_repr :: "int \<times> int \<Rightarrow> string" where
  "decimal_repr x = show_int (fst x) @ ''e'' @ show_int (snd x)"







text \<open>
  An item with every field but the diagnostic layer: its text in a model response, and the
  record built from it.
\<close>

definition response_without_diagnostics :: string where
  "response_without_diagnostics =
     ''[{\"main_question\": \"q\", \"category\": \"c\", '' @
     ''\"pillars\": {\"intervention_narrative\": \"n\", \"intervention_action\": \"a\", '' @
     ''\"intervention_shift\": \"s\"}, '' @
     ''\"atmosphere\": {\"tone\": \"t\", \"pacing\": \"p\"}}]''"

definition item_without_diagnostics :: "'f json" where
  "item_without_diagnostics = JObj
     [(ustr ''main_question'', JStr (ustr ''q'')), (ustr ''category'', JStr (ustr ''c'')),
      (ustr ''pillars'', JObj
         [(ustr ''intervention_narrative'', JStr (ustr ''n'')),
          (ustr ''intervention_action'', JStr (ustr ''a'')),
          (ustr ''intervention_shift'', JStr (ustr ''s''))]),
      (ustr ''atmosphere'', JObj [(ustr ''tone'', JStr (ustr ''t'')), (ustr ''pacing'', JStr (ustr ''p''))])]"

definition node_without_diagnostics :: "string \<Rightarrow> string \<Rightarrow> EnergyNode" where
  "node_without_diagnostics vid url =
     \<lparr>video_id = vid, video_url = url, main_question = ustr ''q'', category = ustr ''c'',
      diagnostic_layer = \<lparr>related_inner_issues = [], reality_commitment_check = [],
                            hidden_benefit = [], energy_node = []\<rparr>,
      pillars = \<lparr>intervention_narrative = ustr ''n'', intervention_action = ustr ''a'',
                   intervention_shift = ustr ''s''\<rparr>,
      atmosphere = \<lparr>tone = ustr ''t'', pacing = ustr ''p''\<rparr>,
      overflow = []\<rparr>"







definition client_without_diagnostics :: llm where
  "client_without_diagnostics transcript k = Response response_without_diagnostics"

section \<open>Truncation\<close>

lemma length_takeWhile_lt:
  "x \<in> set xs \<Longrightarrow> \<not> P x \<Longrightarrow> length (takeWhile P xs) < length xs"
  by (induction xs) auto

lemma length_strip_le: "length (strip s) \<le> length s"
proof -
  have "length (strip s) \<le> length (dropWhile isspace s)"
    unfolding strip_def
    using length_dropWhile_le[of isspace "rev (dropWhile isspace s)"] by simp
  also have "\<dots> \<le> length s" by (rule length_dropWhile_le)
  finally show ?thesis .
qed

lemma length_slice_to_le: "length (slice_to s k) \<le> length s"
  by (auto simp: slice_to_def)

lemma no_overflow_small: "\<bar>m\<bar> < 2 ^ 63 \<Longrightarrow> \<not> float_overflows m"
proof -
  assume a: "\<bar>m\<bar> < 2 ^ 63"
  have "(2::int) ^ 63 \<le> 2 ^ 970" by (rule power_increasing) simp_all
  moreover have "(2::int) ^ 1024 = 2 ^ 970 * 2 ^ 54" by (simp flip: power_add)
  moreover have "(2::int) ^ 970 * 2 \<le> 2 ^ 970 * 2 ^ 54" by (rule mult_left_mono) simp_all
  ultimately have "(2::int) ^ 63 \<le> 2 ^ 1024 - 2 ^ 970" by linarith
  with a show ?thesis by (simp add: float_overflows_def)
qed

text \<open>
  \<^bold>\<open>C7\<close>. When the text is not longer than \<open>max_chars\<close>, \<open>truncate_transcript\<close> returns it
  unchanged.
\<close>

theorem truncate_identity:
  "int (length text) \<le> max_chars \<Longrightarrow> truncate_transcript text max_chars = Inr text"
  by (simp add: truncate_transcript_def)

theorem truncate_identity_witness:
  "int (length ''Rest. Now'') \<le> 12 \<and> truncate_transcript ''Rest. Now'' 12 = Inr ''Rest. Now''"
  using truncate_identity [of "''Rest. Now''" 12] by simp

text \<open>
  \<^bold>\<open>C10\<close>. For every text (a Python string, so of a length up to \<open>PY_SSIZE_T_MAX\<close>) and
  every \<open>max_chars \<ge> 0\<close>, \<open>truncate_transcript\<close> returns a string, and that string is not
  longer than \<open>max_chars\<close> and not longer than the text: on the early return, after the
  cut at the sentence boundary and after the final strip.
\<close>

theorem truncate_within_budget:
  assumes len: "length text \<le> PY_SSIZE_T_MAX" and nonneg: "0 \<le> max_chars"
  shows "\<exists>r. truncate_transcript text max_chars = Inr r
           \<and> int (length r) \<le> max_chars \<and> length r \<le> length text"
proof (cases "int (length text) \<le> max_chars")
  case True
  then show ?thesis by (simp add: truncate_transcript_def)
next
  case False
  define truncated where "truncated = slice_to text max_chars"
  define lp where "lp = rfind truncated (CHR ''.'')"
  from False nonneg len have "\<bar>max_chars\<bar> < 2 ^ 63"
    by (simp add: PY_SSIZE_T_MAX_def)
  then have nov: "\<not> float_overflows max_chars" by (rule no_overflow_small)
  have tl: "length truncated = nat max_chars"
    using False nonneg by (simp add: truncated_def slice_to_def)
  define cut where
    "cut = (if 5 * lp > 4 * max_chars then slice_to truncated (lp + 1) else truncated)"
  have "length cut \<le> length truncated"
    by (simp add: cut_def length_slice_to_le)
  then have "length (strip cut) \<le> nat max_chars"
    using length_strip_le[of cut] tl by linarith
  moreover have "truncate_transcript text max_chars = Inr (strip cut)"
    using False nov
    by (simp add: truncate_transcript_def gt_times_0_8_def Let_def cut_def lp_def truncated_def)
  ultimately show ?thesis using False nonneg by auto
qed

theorem truncate_within_budget_witness:
  "length ''aaaaaaaaa. cdef'' \<le> PY_SSIZE_T_MAX \<and> (0::int) \<le> 11
   \<and> truncate_transcript ''aaaaaaaaa. cdef'' 11 = Inr ''aaaaaaaaa.''
   \<and> int (length ''aaaaaaaaa.'') \<le> 11 \<and> length ''aaaaaaaaa.'' \<le> length ''aaaaaaaaa. cdef''"
  using truncate_within_budget [of "''aaaaaaaaa. cdef''" 11]
  by (simp add: PY_SSIZE_T_MAX_def truncate_transcript_def slice_to_def rfind_def
      gt_times_0_8_def float_overflows_def strip_def isspace_def)

lemma last_strip:
  assumes "s \<noteq> []" and "\<not> isspace (last s)"
  shows "strip s \<noteq> [] \<and> last (strip s) = last s"
proof -
  define t where "t = dropWhile isspace s"
  have "\<exists>x \<in> set s. \<not> isspace x" using assms by (metis last_in_set)
  then have tne: "t \<noteq> []" unfolding t_def by simp
  have "\<exists>p. s = p @ t" unfolding t_def by (metis takeWhile_dropWhile_id)
  then have lt: "last t = last s" using tne by auto
  have "rev t \<noteq> []" "\<not> isspace (hd (rev t))"
    using tne lt assms by (simp_all add: hd_rev)
  then have "dropWhile isspace (rev t) = rev t"
    by (cases "rev t") auto
  then have "strip s = t" by (simp add: strip_def t_def)
  then show ?thesis using tne lt by simp
qed

lemma slice_to_rfind_last:
  assumes "c \<in> set s"
  shows "slice_to s (rfind s c + 1) \<noteq> [] \<and> last (slice_to s (rfind s c + 1)) = c"
proof -
  define k where "k = length (takeWhile (\<lambda>x. x \<noteq> c) (rev s))"
  have cr: "c \<in> set (rev s)" using assms by simp
  then have klt: "k < length s"
    unfolding k_def using length_takeWhile_lt[of c "rev s" "\<lambda>x. x \<noteq> c"] by simp
  have "rfind s c + 1 = int (length s - k)"
    using assms klt by (simp add: rfind_def k_def)
  then have "slice_to s (rfind s c + 1) = take (length s - k) s"
    by (simp add: slice_to_def)
  also have "\<dots> = rev (drop k (rev s))" by (simp add: rev_drop)
  also have "drop k (rev s) = dropWhile (\<lambda>x. x \<noteq> c) (rev s)"
    unfolding k_def by (rule dropWhile_eq_drop[symmetric])
  finally have eq: "slice_to s (rfind s c + 1) = rev (dropWhile (\<lambda>x. x \<noteq> c) (rev s))" .
  have ne: "dropWhile (\<lambda>x. x \<noteq> c) (rev s) \<noteq> []"
    using cr by simp
  then have "hd (dropWhile (\<lambda>x. x \<noteq> c) (rev s)) = c"
    using hd_dropWhile[of "\<lambda>x. x \<noteq> c" "rev s"] by simp
  with ne eq show ?thesis by (simp add: last_rev)
qed

lemma rfind_ge:
  assumes "i < length s" and "s ! i = c"
  shows "int i \<le> rfind s c"
proof -
  define k where "k = length (takeWhile (\<lambda>x. x \<noteq> c) (rev s))"
  have cs: "c \<in> set s" using assms by (metis nth_mem)
  have "k \<le> length s - 1 - i"
  proof (rule ccontr)
    assume "\<not> k \<le> length s - 1 - i"
    then have lt: "length s - 1 - i < k" by simp
    then have "rev s ! (length s - 1 - i) \<in> set (takeWhile (\<lambda>x. x \<noteq> c) (rev s))"
      unfolding k_def by (metis nth_mem takeWhile_nth)
    then have "rev s ! (length s - 1 - i) \<noteq> c" by (metis (mono_tags, lifting) set_takeWhileD)
    moreover have "rev s ! (length s - 1 - i) = s ! i"
      using assms(1) by (simp add: rev_nth)
    ultimately show False using assms(2) by simp
  qed
  then show ?thesis using cs assms(1) by (simp add: rfind_def k_def)
qed

text \<open>
  \<^bold>\<open>C8\<close>, as stated, fails where the last full stop of the window sits exactly at 80% of
  \<open>max_chars\<close>: the text is longer than 10, its only full stop is at index 8, within the
  first 10 characters and at 80% of 10, and the result is the hard cut, which ends with
  \<open>b\<close>. The code compares with \<^verbatim>\<open>>\<close>.
\<close>

theorem truncate_boundary_counterexample:
  "10 < int (length ''aaaaaaaa.bcdef'') \<and> (8::nat) < 10
   \<and> ''aaaaaaaa.bcdef'' ! 8 = CHR ''.'' \<and> 4 * (10::int) \<le> 5 * int 8
   \<and> truncate_transcript ''aaaaaaaa.bcdef'' 10 = Inr ''aaaaaaaa.b''
   \<and> last ''aaaaaaaa.b'' \<noteq> CHR ''.''"
  by (simp add: truncate_transcript_def slice_to_def rfind_def gt_times_0_8_def
      float_overflows_def strip_def isspace_def)

text \<open>
  \<^bold>\<open>C8\<close>, amended. For every text longer than \<open>max_chars\<close> with a full stop at an index
  \<open>i\<close> within the first \<open>max_chars\<close> characters and strictly behind 80% of \<open>max_chars\<close>
  (\<open>i > 0.8 * max_chars\<close>), the string returned by \<open>truncate_transcript\<close> ends with a
  full stop.
\<close>

theorem truncate_ends_with_period:
  assumes len: "length text \<le> PY_SSIZE_T_MAX"
    and long: "max_chars < int (length text)"
    and inwin: "int i < max_chars"
    and dot: "text ! i = CHR ''.''"
    and late: "4 * max_chars < 5 * int i"
  shows "\<exists>r. truncate_transcript text max_chars = Inr r \<and> r \<noteq> [] \<and> last r = CHR ''.''"
proof -
  define truncated where "truncated = slice_to text max_chars"
  define lp where "lp = rfind truncated (CHR ''.'')"
  have pos: "0 \<le> max_chars" using inwin by linarith
  with long len have "\<bar>max_chars\<bar> < 2 ^ 63" by (simp add: PY_SSIZE_T_MAX_def)
  then have nov: "\<not> float_overflows max_chars" by (rule no_overflow_small)
  have tr: "truncated = take (nat max_chars) text"
    using pos by (simp add: truncated_def slice_to_def)
  have il: "i < length truncated" using inwin long pos by (simp add: tr)
  have ti: "truncated ! i = CHR ''.''" using il dot by (simp add: tr)
  have "int i \<le> lp" unfolding lp_def using il ti by (rule rfind_ge)
  then have gt: "4 * max_chars < 5 * lp" using late by linarith
  have mem: "CHR ''.'' \<in> set truncated" using il ti by (metis nth_mem)
  define cut where "cut = slice_to truncated (lp + 1)"
  have c: "cut \<noteq> [] \<and> last cut = CHR ''.''"
    unfolding cut_def lp_def using mem by (rule slice_to_rfind_last)
  have "\<not> isspace (CHR ''.'')" by (simp add: isspace_def)
  with c have "strip cut \<noteq> [] \<and> last (strip cut) = CHR ''.''"
    using last_strip[of cut] by simp
  moreover have "truncate_transcript text max_chars = Inr (strip cut)"
    using long nov gt
    by (simp add: truncate_transcript_def gt_times_0_8_def Let_def cut_def lp_def truncated_def)
  ultimately show ?thesis by simp
qed

theorem truncate_ends_with_period_witness:
  "length ''aaaaaaaaa.bcdef'' \<le> PY_SSIZE_T_MAX \<and> 10 < int (length ''aaaaaaaaa.bcdef'')
   \<and> int 9 < 10 \<and> ''aaaaaaaaa.bcdef'' ! 9 = CHR ''.'' \<and> 4 * (10::int) < 5 * int 9
   \<and> truncate_transcript ''aaaaaaaaa.bcdef'' 10 = Inr ''aaaaaaaaa.''
   \<and> last ''aaaaaaaaa.'' = CHR ''.''"
  using truncate_ends_with_period [of "''aaaaaaaaa.bcdef''" 10 9]
  by (simp add: PY_SSIZE_T_MAX_def truncate_transcript_def slice_to_def rfind_def
      gt_times_0_8_def float_overflows_def strip_def isspace_def)

section \<open>The embedding-input string\<close>

text \<open>
  \<^bold>\<open>C9\<close>. For every record, \<open>embed_text\<close> is \<open>main_question\<close>, \<open>category\<close> and the four
  fields of the diagnostic layer, in this order and joined by single spaces; so each of
  the six, \<open>main_question\<close>, \<open>category\<close> and \<open>energy_node\<close> among them, occurs in it
  verbatim as a substring.
\<close>

theorem embed_text_contains_fields:
  "embed_text n =
     main_question n @ ustr '' '' @ category n @ ustr '' '' @
     related_inner_issues (diagnostic_layer n) @ ustr '' '' @
     reality_commitment_check (diagnostic_layer n) @ ustr '' '' @
     hidden_benefit (diagnostic_layer n) @ ustr '' '' @ energy_node (diagnostic_layer n)
   \<and> sublist (main_question n) (embed_text n)
   \<and> sublist (category n) (embed_text n)
   \<and> sublist (related_inner_issues (diagnostic_layer n)) (embed_text n)
   \<and> sublist (reality_commitment_check (diagnostic_layer n)) (embed_text n)
   \<and> sublist (hidden_benefit (diagnostic_layer n)) (embed_text n)
   \<and> sublist (energy_node (diagnostic_layer n)) (embed_text n)"
proof -
  let ?mq = "main_question n" and ?cat = "category n" and ?sp = "ustr '' ''"
  let ?a = "related_inner_issues (diagnostic_layer n)"
  let ?b = "reality_commitment_check (diagnostic_layer n)"
  let ?c = "hidden_benefit (diagnostic_layer n)"
  let ?d = "energy_node (diagnostic_layer n)"
  have e: "embed_text n = ?mq @ ?sp @ ?cat @ ?sp @ ?a @ ?sp @ ?b @ ?sp @ ?c @ ?sp @ ?d"
    by (simp add: embed_text_def Let_def)
  have 1: "sublist ?mq (embed_text n)"
    unfolding e by (rule sublist_append_rightI)
  have 2: "sublist ?cat (embed_text n)"
    using sublist_appendI[of ?cat "?mq @ ?sp" "?sp @ ?a @ ?sp @ ?b @ ?sp @ ?c @ ?sp @ ?d"]
    by (simp add: e)
  have 3: "sublist ?a (embed_text n)"
    using sublist_appendI[of ?a "?mq @ ?sp @ ?cat @ ?sp" "?sp @ ?b @ ?sp @ ?c @ ?sp @ ?d"]
    by (simp add: e)
  have 4: "sublist ?b (embed_text n)"
    using sublist_appendI[of ?b "?mq @ ?sp @ ?cat @ ?sp @ ?a @ ?sp" "?sp @ ?c @ ?sp @ ?d"]
    by (simp add: e)
  have 5: "sublist ?c (embed_text n)"
    using sublist_appendI[of ?c "?mq @ ?sp @ ?cat @ ?sp @ ?a @ ?sp @ ?b @ ?sp" "?sp @ ?d"]
    by (simp add: e)
  have 6: "sublist ?d (embed_text n)"
    using sublist_append_leftI[of ?d "?mq @ ?sp @ ?cat @ ?sp @ ?a @ ?sp @ ?b @ ?sp @ ?c @ ?sp"]
    by (simp add: e)
  from e 1 2 3 4 5 6 show ?thesis by blast
qed

section \<open>Validation of items\<close>

lemma ustr_eq_iff [simp]: "ustr a = ustr b \<longleftrightarrow> a = b"
  unfolding ustr_def by (rule inj_map_eq_map) (simp add: inj_def)

lemma validate_loop_acc:
  "validate_loop vid url items nodes = nodes @ validate_loop vid url items []"
proof (induction items arbitrary: nodes)
  case Nil
  show ?case by simp
next
  case (Cons item rest)
  show ?case
  proof (cases "build_node vid url item")
    case (Inl exc)
    then show ?thesis using Cons.IH[of nodes] by simp
  next
    case (Inr node)
    then show ?thesis using Cons.IH[of "nodes @ [node]"] Cons.IH[of "[node]"] by simp
  qed
qed

lemma validate_nodes_Nil: "validate_nodes [] vid url = []"
  by (simp add: validate_nodes_def)

lemma validate_nodes_Cons:
  "validate_nodes (item # rest) vid url =
     (case build_node vid url item of Inr node \<Rightarrow> [node] | Inl exc \<Rightarrow> []) @ validate_nodes rest vid url"
  unfolding validate_nodes_def
  using validate_loop_acc[of vid url rest "case build_node vid url item of Inr node \<Rightarrow> [node] | Inl exc \<Rightarrow> []"]
  by (cases "build_node vid url item") simp_all

lemma validate_nodes_concat:
  "validate_nodes items vid url =
     concat (map (\<lambda>item. case build_node vid url item of Inr node \<Rightarrow> [node] | Inl exc \<Rightarrow> []) items)"
  by (induction items) (simp_all add: validate_nodes_Nil validate_nodes_Cons)


lemma bind_Inl: "bind (Inl e) f = Inl e"
  by (simp add: bind_def)














text \<open>The example inputs, evaluated.\<close>

lemmas decoder_defs = extract_json_array_def strip_def isspace_def loads_list_def json_loads_def
  search_bracket_span_def scan_once.simps(2) parse_array.simps(2) parse_object.simps(2)
  skip_ws_def is_json_ws_def parse_constant_def parse_number_def match_int_part_def
  match_frac_def match_exp_def is_digit_def int_of_literal_def nat_of_digits_def digit_val_def
  dict_def cons_result_def ustr_def Let_def eval_nat_numeral


lemma parse_without_diagnostics:
  "extract_json_array parse_float response_without_diagnostics = Inr [item_without_diagnostics]"
  by (simp add: decoder_defs response_without_diagnostics_def item_without_diagnostics_def)

lemma parse_no_array: "extract_json_array parse_float ''no array here'' = Inl ValueError"
  by (simp add: decoder_defs)

lemmas build_node_defs = build_node_def bind_def py_get_def
  py_getitem_def new_DiagnosticLayer_def new_Pillars_def new_Atmosphere_def
  new_EnergyNode_def str_field_def required_str_def overflow_field_def






lemma truncate_example: "truncate_transcript ''Rest well.'' 12000 = Inr ''Rest well.''"
  by (simp add: truncate_transcript_def)

section \<open>Retry and the extraction operation\<close>

lemma snd_once: "snd (llm_and_parse_once pf client t k) = Suc k"
  by (simp add: llm_and_parse_once_def split: llm_outcome.split)

lemma once_eq:
  "llm_and_parse_once pf client t k = (fst (llm_and_parse_once pf client t k), Suc k)"
  by (metis prod.collapse snd_once)

lemma retrying_success:
  "fst (llm_and_parse_once pf client t k) = Inr parsed \<Longrightarrow>
   retrying pf client t a k = (Inr parsed, Suc k)"
  by (subst retrying.simps, subst once_eq) simp











lemma extract_after_truncate:
  assumes "truncate_transcript transcript max_chars = Inr t"
  shows "extract_energy_nodes pf client transcript vid url max_chars =
     (case call_llm_and_parse pf client t of
        (Inl exc, calls) \<Rightarrow> (Inr [], calls)
      | (Inr raw_list, calls) \<Rightarrow> (Inr (validate_nodes raw_list vid url), calls))"
  using assms by (simp add: extract_energy_nodes_def)










section \<open>Isolation of item failures\<close>




section \<open>The diagnostic layer of accepted records\<close>

text \<open>
  \<^bold>\<open>C1\<close> does not hold of the code. A model response whose only item has every field but
  the diagnostic layer is accepted: \<^verbatim>\<open>item.get("diagnostic_layer", {})\<close> and the four
  \<^verbatim>\<open>dl_raw.get(..., "")\<close> put the empty string in each diagnostic field, and the schema
  takes the empty string. The operation returns one record whose four diagnostic fields
  are empty.
\<close>

theorem empty_diagnostics_accepted:
  "extract_energy_nodes parse_float client_without_diagnostics ''Rest well.'' ''v'' ''u'' 12000
     = (Inr [node_without_diagnostics ''v'' ''u''], 1)
   \<and> related_inner_issues (diagnostic_layer (node_without_diagnostics ''v'' ''u'')) = []
   \<and> reality_commitment_check (diagnostic_layer (node_without_diagnostics ''v'' ''u'')) = []
   \<and> hidden_benefit (diagnostic_layer (node_without_diagnostics ''v'' ''u'')) = []
   \<and> energy_node (diagnostic_layer (node_without_diagnostics ''v'' ''u'')) = []"
proof -
  have "fst (llm_and_parse_once parse_float client_without_diagnostics ''Rest well.'' 0)
      = Inr [item_without_diagnostics]"
    by (simp add: llm_and_parse_once_def client_without_diagnostics_def parse_without_diagnostics)
  then have "call_llm_and_parse parse_float client_without_diagnostics ''Rest well.''
      = (Inr [item_without_diagnostics], 1)"
    unfolding call_llm_and_parse_def by (subst retrying_success) simp_all
  then show ?thesis
    by (simp add: extract_after_truncate[OF truncate_example] validate_nodes_concat
        node_without_diagnostics_def item_without_diagnostics_def build_node_defs)
qed

section \<open>The response parser on the specified inputs\<close>

lemma parse_bare:
  "extract_json_array parse_float ''[{\"a\":1}]'' = Inr [JObj [(ustr ''a'', JInt 1)]]"
  by (simp add: decoder_defs)

lemma parse_fenced:
  "extract_json_array parse_float
       (''```json'' @ [CHR 0x0A] @ ''[{\"a\":1}]'' @ [CHR 0x0A] @ ''```'')
     = Inr [JObj [(ustr ''a'', JInt 1)]]"
  by (simp add: decoder_defs)

lemma parse_in_prose:
  "extract_json_array parse_float ''Here is the result: [{\"a\":1}] Hope this helps!''
     = Inr [JObj [(ustr ''a'', JInt 1)]]"
  by (simp add: decoder_defs)

text \<open>
  \<^bold>\<open>C5\<close>. \<open>extract_json_array\<close> returns the one-element array \<^verbatim>\<open>[{"a": 1}]\<close> on the bare
  array, on the array inside a \<^verbatim>\<open>json\<close> code fence and on the array wrapped in prose, and
  it raises its parse error, a \<^verbatim>\<open>ValueError\<close>, on \<^verbatim>\<open>no array here\<close>.
\<close>

theorem extract_json_array_examples:
  "extract_json_array parse_float ''[{\"a\":1}]'' = Inr [JObj [(ustr ''a'', JInt 1)]]
   \<and> extract_json_array parse_float
         (''```json'' @ [CHR 0x0A] @ ''[{\"a\":1}]'' @ [CHR 0x0A] @ ''```'')
       = Inr [JObj [(ustr ''a'', JInt 1)]]
   \<and> extract_json_array parse_float ''Here is the result: [{\"a\":1}] Hope this helps!''
       = Inr [JObj [(ustr ''a'', JInt 1)]]
   \<and> extract_json_array parse_float ''no array here'' = Inl ValueError"
  using parse_bare parse_fenced parse_in_prose parse_no_array by blast

section \<open>The bound on the nesting is never reached\<close>

text \<open>
  Every successful call of the decoder consumes input, so a run that succeeds with any
  bound succeeds with the bound that \<open>json_loads\<close> starts from: \<open>json_loads\<close> gives no
  result only where the unbounded descent gives none or leaves text behind the value.
\<close>

lemma length_skip_ws: "length (skip_ws s) \<le> length s"
  by (simp add: skip_ws_def length_dropWhile_le)

lemma cons_result_Some:
  "cons_result c x = Some (str, r) \<Longrightarrow> \<exists>str'. x = Some (str', r)"
  by (cases x) (auto simp: cons_result_def)

lemma scanstring_consumes: "scanstring s = Some (str, r) \<Longrightarrow> length r \<le> length s"
proof (induction s arbitrary: str r rule: scanstring.induct)
  case 1
  then show ?case by simp
next
  case (2 c cs)
  show ?case
  proof (cases "c = CHR 0x22")
    case True
    then show ?thesis using "2.prems" by simp
  next
    case nq: False
    show ?thesis
    proof (cases "c = CHR 0x5C")
      case False
      have ctl: "\<not> (of_char c :: nat) < 32"
        using "2.prems" nq False by (auto split: if_splits)
      then have "\<exists>str'. scanstring cs = Some (str', r)"
        using "2.prems" nq False by (auto dest: cons_result_Some)
      then have "length r \<le> length cs" using "2.IH"(5)[OF nq False ctl] by auto
      then show ?thesis by simp
    next
      case True
      then obtain e cs' where cs: "cs = e # cs'" using "2.prems" by (cases cs) auto
      show ?thesis
      proof (cases "e = CHR ''u''")
        case False
        then obtain ch where b: "BACKSLASH e = Some ch"
          using "2.prems" True cs by (auto split: option.splits)
        then have "\<exists>str'. scanstring cs' = Some (str', r)"
          using "2.prems" True cs False by (auto dest: cons_result_Some)
        then have "length r \<le> length cs'"
          using "2.IH"(4)[OF nq True cs False b] by auto
        then show ?thesis using cs by simp
      next
        case eu: True
        then obtain uni where u: "decode_uXXXX cs' = Some uni"
          using "2.prems" True cs by (auto split: option.splits)
        show ?thesis
        proof (cases "is_high_surrogate uni \<and> take 2 (drop 4 cs') = [CHR 0x5C, CHR ''u'']")
          case False
          then have "\<exists>str'. scanstring (drop 4 cs') = Some (str', r)"
            using "2.prems" True cs eu u by (auto dest: cons_result_Some)
          then have "length r \<le> length (drop 4 cs')"
            using "2.IH"(3)[OF nq True cs eu u False] by auto
          then show ?thesis using cs by simp
        next
          case pair: True
          then obtain uni2 where u2: "decode_uXXXX (drop 6 cs') = Some uni2"
            using "2.prems" True cs eu u by (auto split: option.splits)
          show ?thesis
          proof (cases "is_low_surrogate uni2")
            case low: True
            then have "\<exists>str'. scanstring (drop 10 cs') = Some (str', r)"
              using "2.prems" True cs eu u pair u2 by (auto dest: cons_result_Some)
            then have "length r \<le> length (drop 10 cs')"
              using "2.IH"(1)[OF nq True cs eu u pair u2 low] by auto
            then show ?thesis using cs by simp
          next
            case nolow: False
            then have "\<exists>str'. scanstring (drop 4 cs') = Some (str', r)"
              using "2.prems" True cs eu u pair u2 by (auto dest: cons_result_Some)
            then have "length r \<le> length (drop 4 cs')"
              using "2.IH"(2)[OF nq True cs eu u pair u2 nolow] by auto
            then show ?thesis using cs by simp
          qed
        qed
      qed
    qed
  qed
qed

lemma match_frac_length: "match_frac s = (fd, r) \<Longrightarrow> length r \<le> length s"
  by (cases s) (auto simp: match_frac_def length_dropWhile_le le_SucI split: if_splits)

lemma match_exp_length: "match_exp s = (ex, r) \<Longrightarrow> length r \<le> length s"
proof (cases s)
  case Nil
  assume "match_exp s = (ex, r)"
  with Nil show ?thesis by (simp add: match_exp_def)
next
  case (Cons c t)
  assume a: "match_exp s = (ex, r)"
  have "length (dropWhile is_digit t) \<le> length t" by (rule length_dropWhile_le)
  moreover have "length (dropWhile is_digit (drop (Suc 0) t)) \<le> length t"
    using length_dropWhile_le[of is_digit "drop (Suc 0) t"] by simp
  ultimately show ?thesis using a Cons
    by (auto simp: match_exp_def Let_def split: if_splits)
qed

lemma match_int_part_length: "match_int_part s = Some (ds, r) \<Longrightarrow> length r < length s"
proof -
  assume a: "match_int_part s = Some (ds, r)"
  have 1: "\<And>t. length (dropWhile is_digit t) \<le> length t" by (rule length_dropWhile_le)
  show ?thesis
  proof (cases "s \<noteq> [] \<and> hd s = CHR ''-''")
    case True
    then obtain t where s: "s = CHR ''-'' # t" by (cases s) auto
    show ?thesis using a s 1
      by (auto simp: match_int_part_def Let_def le_imp_less_Suc less_SucI split: list.splits if_splits)
  next
    case False
    then show ?thesis using a 1
      by (auto simp: match_int_part_def Let_def le_imp_less_Suc split: list.splits if_splits)
  qed
qed

lemma parse_number_consumes: "parse_number pf s = Some (v, r) \<Longrightarrow> length r < length s"
proof -
  assume a: "parse_number pf s = Some (v, r)"
  then obtain ds r1 where m: "match_int_part s = Some (ds, r1)"
    by (auto simp: parse_number_def split: option.splits)
  obtain fd r2 where f: "match_frac r1 = (fd, r2)" by (cases "match_frac r1")
  obtain ex r3 where e: "match_exp r2 = (ex, r3)" by (cases "match_exp r2")
  have "r = r3" using a m f e by (auto simp: parse_number_def split: if_splits)
  then show ?thesis
    using match_int_part_length[OF m] match_frac_length[OF f] match_exp_length[OF e] by simp
qed

lemma parse_constant_consumes: "parse_constant pf s = Some (v, r) \<Longrightarrow> length r < length s"
proof (cases "s = []")
  case True
  assume "parse_constant pf s = Some (v, r)"
  then show ?thesis using True
    by (simp add: parse_constant_def parse_number_def match_int_part_def)
next
  case False
  assume "parse_constant pf s = Some (v, r)"
  then show ?thesis using False parse_number_consumes[of pf s v r]
    by (auto simp: parse_constant_def split: if_splits)
qed

lemma skip_ws_Cons_length: "skip_ws s = c # r \<Longrightarrow> length r < length s"
  using length_skip_ws[of s] by simp

lemma parser_consumes:
  "(\<forall>s v r. scan_once pf n s = Some (v, r) \<longrightarrow> length r < length s)
   \<and> (\<forall>s vs r. parse_array pf n s = Some (vs, r) \<longrightarrow> length r < length s)
   \<and> (\<forall>s ps r. parse_object pf n s = Some (ps, r) \<longrightarrow> length r < length s)"
proof (induction n)
  case 0
  show ?case by simp
next
  case (Suc n)
  then have ih1: "\<And>s v r. scan_once pf n s = Some (v, r) \<Longrightarrow> length r < length s"
    and ih2: "\<And>s vs r. parse_array pf n s = Some (vs, r) \<Longrightarrow> length r < length s"
    and ih3: "\<And>s ps r. parse_object pf n s = Some (ps, r) \<Longrightarrow> length r < length s"
    by blast+
  have 1: "length r < length s" if a: "scan_once pf (Suc n) s = Some (v, r)" for s v r
  proof (cases s)
    case Nil
    then show ?thesis using a by (simp add: scan_once.simps(2))
  next
    case (Cons c cs)
    consider (str) "c = CHR 0x22" | (obj) "c \<noteq> CHR 0x22" "c = CHR ''{''"
      | (arr) "c \<noteq> CHR 0x22" "c \<noteq> CHR ''{''" "c = CHR ''[''"
      | (lit) "c \<noteq> CHR 0x22" "c \<noteq> CHR ''{''" "c \<noteq> CHR ''[''" by blast
    then show ?thesis
    proof cases
      case str
      then obtain x where "scanstring cs = Some (x, r)"
        using a Cons by (auto simp: scan_once.simps(2) split: option.splits)
      from scanstring_consumes[OF this] show ?thesis using Cons by simp
    next
      case obj
      then obtain d r0 where sk: "skip_ws cs = d # r0"
        using a Cons by (auto simp: scan_once.simps(2) split: list.splits)
      have l0: "length r0 < length cs" using sk by (rule skip_ws_Cons_length)
      show ?thesis
      proof (cases "d = CHR ''}''")
        case True
        then show ?thesis using a Cons obj sk l0 by (simp add: scan_once.simps(2))
      next
        case False
        then obtain ps where "parse_object pf n (d # r0) = Some (ps, r)"
          using a Cons obj sk by (auto simp: scan_once.simps(2) split: option.splits)
        from ih3[OF this] show ?thesis using l0 Cons by simp
      qed
    next
      case arr
      then obtain d r0 where sk: "skip_ws cs = d # r0"
        using a Cons by (auto simp: scan_once.simps(2) split: list.splits)
      have l0: "length r0 < length cs" using sk by (rule skip_ws_Cons_length)
      show ?thesis
      proof (cases "d = CHR '']''")
        case True
        then show ?thesis using a Cons arr sk l0 by (simp add: scan_once.simps(2))
      next
        case False
        then obtain vs where "parse_array pf n (d # r0) = Some (vs, r)"
          using a Cons arr sk by (auto simp: scan_once.simps(2) split: option.splits)
        from ih2[OF this] show ?thesis using l0 Cons by simp
      qed
    next
      case lit
      then have "parse_constant pf s = Some (v, r)" using a Cons by (simp add: scan_once.simps(2))
      then show ?thesis by (rule parse_constant_consumes)
    qed
  qed
  have 2: "length r < length s" if a: "parse_array pf (Suc n) s = Some (vs, r)" for s vs r
  proof -
    from a obtain v r1 where v: "scan_once pf n s = Some (v, r1)"
      by (auto simp: parse_array.simps(2) split: option.splits)
    from a v obtain c r2 where sk: "skip_ws r1 = c # r2"
      by (auto simp: parse_array.simps(2) split: list.splits)
    have l: "length r2 < length s" using ih1[OF v] skip_ws_Cons_length[OF sk] by simp
    show ?thesis
    proof (cases "c = CHR '']''")
      case True
      then show ?thesis using a v sk l by (simp add: parse_array.simps(2))
    next
      case False
      then obtain ws where "parse_array pf n (skip_ws r2) = Some (ws, r)"
        using a v sk by (auto simp: parse_array.simps(2) split: option.splits if_splits)
      from ih2[OF this] show ?thesis using l length_skip_ws[of r2] by simp
    qed
  qed
  have 3: "length r < length s" if a: "parse_object pf (Suc n) s = Some (ps, r)" for s ps r
  proof -
    from a obtain s0 where s: "s = CHR 0x22 # s0"
      by (cases s) (auto simp: parse_object.simps(2) split: if_splits)
    from a s obtain key r0 where k: "scanstring s0 = Some (key, r0)"
      by (auto simp: parse_object.simps(2) split: option.splits)
    from a s k obtain r1 where sk1: "skip_ws r0 = CHR '':'' # r1"
      by (auto simp: parse_object.simps(2) split: list.splits if_splits)
    from a s k sk1 obtain v r2 where v: "scan_once pf n (skip_ws r1) = Some (v, r2)"
      by (auto simp: parse_object.simps(2) split: option.splits)
    from a s k sk1 v obtain d r3 where sk3: "skip_ws r2 = d # r3"
      by (auto simp: parse_object.simps(2) split: list.splits)
    have l: "length r3 < length s"
      using scanstring_consumes[OF k] skip_ws_Cons_length[OF sk1] ih1[OF v]
        length_skip_ws[of r1] skip_ws_Cons_length[OF sk3] s by simp
    show ?thesis
    proof (cases "d = CHR ''}''")
      case True
      then show ?thesis using a s k sk1 v sk3 l by (simp add: parse_object.simps(2))
    next
      case False
      then obtain qs where "parse_object pf n (skip_ws r3) = Some (qs, r)"
        using a s k sk1 v sk3 by (auto simp: parse_object.simps(2) split: option.splits if_splits)
      from ih3[OF this] show ?thesis using l length_skip_ws[of r3] by simp
    qed
  qed
  from 1 2 3 show ?case by blast
qed

lemmas consumes1 = parser_consumes[THEN conjunct1, rule_format]

lemma fuel_adequate:
  "(\<forall>s r n. scan_once pf m s = Some r \<longrightarrow> 2 * length s + 1 \<le> n \<longrightarrow> scan_once pf n s = Some r)
   \<and> (\<forall>s r n. parse_array pf m s = Some r \<longrightarrow> 2 * length s + 2 \<le> n \<longrightarrow> parse_array pf n s = Some r)
   \<and> (\<forall>s r n. parse_object pf m s = Some r \<longrightarrow> 2 * length s + 2 \<le> n
          \<longrightarrow> parse_object pf n s = Some r)"
proof (induction m)
  case 0
  show ?case by simp
next
  case (Suc m)
  then have ih1: "\<And>s r n. scan_once pf m s = Some r \<Longrightarrow> 2 * length s + 1 \<le> n \<Longrightarrow> scan_once pf n s = Some r"
    and ih2: "\<And>s r n. parse_array pf m s = Some r \<Longrightarrow> 2 * length s + 2 \<le> n \<Longrightarrow> parse_array pf n s = Some r"
    and ih3: "\<And>s r n. parse_object pf m s = Some r \<Longrightarrow> 2 * length s + 2 \<le> n \<Longrightarrow> parse_object pf n s = Some r"
    by blast+
  have 1: "scan_once pf n s = Some r" if a: "scan_once pf (Suc m) s = Some r" and b: "2 * length s + 1 \<le> n"
    for s r n
  proof -
    from b obtain k where n: "n = Suc k" by (cases n) auto
    from a obtain c cs where s: "s = c # cs" by (cases s) (auto simp: scan_once.simps(2))
    consider (obj) "c \<noteq> CHR 0x22" "c = CHR ''{''"
      | (arr) "c \<noteq> CHR 0x22" "c \<noteq> CHR ''{''" "c = CHR ''[''"
      | (other) "c = CHR 0x22 \<or> (c \<noteq> CHR ''{'' \<and> c \<noteq> CHR ''['')" by blast
    then show ?thesis
    proof cases
      case other
      then have "scan_once pf (Suc k) s = scan_once pf (Suc m) s"
        using s by (auto simp: scan_once.simps(2))
      then show ?thesis using a n by simp
    next
      case obj
      then obtain d r0 where sk: "skip_ws cs = d # r0"
        using a s by (auto simp: scan_once.simps(2) split: list.splits)
      show ?thesis
      proof (cases "d = CHR ''}''")
        case True
        then show ?thesis using a s obj sk n by (simp add: scan_once.simps(2))
      next
        case False
        then obtain ps r' where p: "parse_object pf m (d # r0) = Some (ps, r')"
          using a s obj sk by (auto simp: scan_once.simps(2) split: option.splits)
        have "2 * length (d # r0) + 2 \<le> k" using b n s length_skip_ws[of cs] sk by simp
        from ih3[OF p this] show ?thesis using a s obj sk n p False
          by (simp add: scan_once.simps(2))
      qed
    next
      case arr
      then obtain d r0 where sk: "skip_ws cs = d # r0"
        using a s by (auto simp: scan_once.simps(2) split: list.splits)
      show ?thesis
      proof (cases "d = CHR '']''")
        case True
        then show ?thesis using a s arr sk n by (simp add: scan_once.simps(2))
      next
        case False
        then obtain vs r' where p: "parse_array pf m (d # r0) = Some (vs, r')"
          using a s arr sk by (auto simp: scan_once.simps(2) split: option.splits)
        have "2 * length (d # r0) + 2 \<le> k" using b n s length_skip_ws[of cs] sk by simp
        from ih2[OF p this] show ?thesis using a s arr sk n p False
          by (simp add: scan_once.simps(2))
      qed
    qed
  qed
  have 2: "parse_array pf n s = Some r" if a: "parse_array pf (Suc m) s = Some r"
    and b: "2 * length s + 2 \<le> n" for s r n
  proof -
    from b obtain k where n: "n = Suc k" by (cases n) auto
    from a obtain v r1 where v: "scan_once pf m s = Some (v, r1)"
      by (auto simp: parse_array.simps(2) split: option.splits)
    have v': "scan_once pf k s = Some (v, r1)" using ih1[OF v] b n by simp
    from a v obtain c r2 where sk: "skip_ws r1 = c # r2"
      by (auto simp: parse_array.simps(2) split: list.splits)
    show ?thesis
    proof (cases "c = CHR '','' \<and> c \<noteq> CHR '']''")
      case False
      then show ?thesis using a v v' sk n by (auto simp: parse_array.simps(2) split: if_splits)
    next
      case True
      then obtain ws r' where p: "parse_array pf m (skip_ws r2) = Some (ws, r')"
        using a v sk by (auto simp: parse_array.simps(2) split: option.splits)
      have "length r2 < length s" using consumes1[OF v] skip_ws_Cons_length[OF sk] by simp
      then have "2 * length (skip_ws r2) + 2 \<le> k" using b n length_skip_ws[of r2] by simp
      from ih2[OF p this] show ?thesis using a v v' sk n p True
        by (simp add: parse_array.simps(2))
    qed
  qed
  have 3: "parse_object pf n s = Some r" if a: "parse_object pf (Suc m) s = Some r"
    and b: "2 * length s + 2 \<le> n" for s r n
  proof -
    from b obtain k where n: "n = Suc k" by (cases n) auto
    from a obtain s0 where s: "s = CHR 0x22 # s0"
      by (cases s) (auto simp: parse_object.simps(2) split: if_splits)
    from a s obtain key r0 where ky: "scanstring s0 = Some (key, r0)"
      by (auto simp: parse_object.simps(2) split: option.splits)
    from a s ky obtain r1 where sk1: "skip_ws r0 = CHR '':'' # r1"
      by (auto simp: parse_object.simps(2) split: list.splits if_splits)
    from a s ky sk1 obtain v r2 where v: "scan_once pf m (skip_ws r1) = Some (v, r2)"
      by (auto simp: parse_object.simps(2) split: option.splits)
    have l1: "length (skip_ws r1) < length s"
      using scanstring_consumes[OF ky] skip_ws_Cons_length[OF sk1] length_skip_ws[of r1] s by simp
    then have v': "scan_once pf k (skip_ws r1) = Some (v, r2)" using ih1[OF v] b n by simp
    from a s ky sk1 v obtain d r3 where sk3: "skip_ws r2 = d # r3"
      by (auto simp: parse_object.simps(2) split: list.splits)
    show ?thesis
    proof (cases "d = CHR '','' \<and> d \<noteq> CHR ''}''")
      case False
      then show ?thesis using a s ky sk1 v v' sk3 n
        by (auto simp: parse_object.simps(2) split: if_splits)
    next
      case True
      then obtain qs r' where p: "parse_object pf m (skip_ws r3) = Some (qs, r')"
        using a s ky sk1 v sk3 by (auto simp: parse_object.simps(2) split: option.splits)
      have "length r3 < length s"
        using consumes1[OF v] skip_ws_Cons_length[OF sk3] l1 by simp
      then have "2 * length (skip_ws r3) + 2 \<le> k" using b n length_skip_ws[of r3] by simp
      from ih3[OF p this] show ?thesis using a s ky sk1 v v' sk3 n p True
        by (simp add: parse_object.simps(2))
    qed
  qed
  from 1 2 3 show ?case by blast
qed

lemma json_loads_fuel:
  "json_loads pf s = None \<longleftrightarrow>
     (\<forall>n. case scan_once pf n (skip_ws s) of None \<Rightarrow> True | Some (v, r) \<Rightarrow> skip_ws r \<noteq> [])"
proof
  assume a: "json_loads pf s = None"
  show "\<forall>n. case scan_once pf n (skip_ws s) of None \<Rightarrow> True | Some (v, r) \<Rightarrow> skip_ws r \<noteq> []"
  proof
    fix n
    show "case scan_once pf n (skip_ws s) of None \<Rightarrow> True | Some (v, r) \<Rightarrow> skip_ws r \<noteq> []"
    proof (cases "scan_once pf n (skip_ws s)")
      case None
      then show ?thesis by simp
    next
      case (Some vr)
      have "2 * length (skip_ws s) + 1 \<le> 2 * length s + 1" using length_skip_ws[of s] by simp
      with fuel_adequate[of pf n] Some have "scan_once pf (2 * length s + 1) (skip_ws s) = Some vr"
        by blast
      then show ?thesis using a Some by (auto simp: json_loads_def split: prod.splits if_splits)
    qed
  qed
next
  assume "\<forall>n. case scan_once pf n (skip_ws s) of None \<Rightarrow> True | Some (v, r) \<Rightarrow> skip_ws r \<noteq> []"
  then have "case scan_once pf (2 * length s + 1) (skip_ws s) of None \<Rightarrow> True
      | Some (v, r) \<Rightarrow> skip_ws r \<noteq> []" by blast
  then show "json_loads pf s = None"
    by (auto simp: json_loads_def split: option.splits prod.splits)
qed

end
